theory Spec2Isabelle
  imports Main
begin

section \<open>The administration surface of the node: \<open>pkg/api/app.go\<close>\<close>

text \<open>
  A shallow embedding of \<open>pkg/api/app.go\<close> and of the L2 feed's wire schema.
  Go values are modelled as follows.
  \<^item> A \<open>byte\<close> is a \<open>char\<close> (eight bits); a \<open>[]byte\<close> and a Go \<open>string\<close> are
    both byte sequences, so \<open>[]byte(apiKey)\<close> is the identity.
  \<^item> An \<open>error\<close> is a value of the datatype \<open>error\<close>; a nil error is \<open>None\<close> of
    \<open>error option\<close>; a Go result \<open>(v, nil)\<close> is \<open>Inr v\<close> and \<open>(nil, err)\<close> is \<open>Inl err\<close>.
  \<^item> Functions of other packages (\<open>crypto\<close>, \<open>proto\<close>, \<open>encoding/json\<close>, the wallet) are
    parameters, collected in the record \<open>collaborators\<close>.
  \<^item> The objects the \<open>App\<close> points to and mutates (the wallet, the internal channel) are
    fields of the \<open>Services\<close> value inside the \<open>App\<close>; every operation returns the
    \<open>App\<close> as it leaves it.
\<close>

subsection \<open>Values\<close>

type_synonym byte = char
type_synonym bytes = "char list"

text \<open>\<open>crypto.Digest\<close>, \<open>crypto.PublicKey\<close>, \<open>crypto.SecretKey\<close> and \<open>proto.WavesAddress\<close>
  are fixed-size byte arrays, compared with \<open>==\<close> byte by byte.\<close>

type_synonym Digest = bytes
type_synonym PublicKey = bytes
type_synonym SecretKey = bytes
type_synonym WavesAddress = bytes

text \<open>\<open>proto.Scheme\<close> is a \<open>byte\<close>: the chain id.\<close>

type_synonym Scheme = byte

text \<open>\<open>time.Duration\<close> counts nanoseconds in an \<open>int64\<close>; the only duration of this file is
  the constant \<open>5 * time.Second\<close>, far below \<open>2^63\<close>.\<close>

type_synonym Duration = int

definition Second :: Duration where
  "Second = 1000000000"

text \<open>
  Error values, by the way this file builds them:
  \<open>errors.New(msg)\<close>, \<open>errors.Wrap(err, msg)\<close> (on a non-nil \<open>err\<close>),
  \<open>wrapToBadRequestError(err)\<close> and \<open>wrapToAuthError(err)\<close> (the two typed wrappers of
  package \<open>api\<close>), and \<open>Foreign\<close> for an error value made outside this file (by the JSON
  decoder, \<open>proto\<close>, \<open>crypto\<close>, the wallet, the context, or the verdict sent back on the
  reply channel).
\<close>

datatype error =
    Foreign string
  | New string
  | Wrap error string
  | BadRequestError error
  | AuthError error

definition wrapToBadRequestError :: "error \<Rightarrow> error" where
  "wrapToBadRequestError err = BadRequestError err"

definition wrapToAuthError :: "error \<Rightarrow> error" where
  "wrapToAuthError err = AuthError err"

record account =
  Address :: WavesAddress
  PublicKey :: PublicKey

text \<open>\<open>BlockRequestLimit\<close> is a \<open>uint64\<close> and \<open>AssetDetailsLimit\<close> an \<open>int\<close>; both only
  ever hold the constant 100 here, and no arithmetic is done on them.\<close>

record appSettings =
  BlockRequestLimit :: nat
  AssetDetailsLimit :: int

definition defaultBlockRequestLimit :: nat where
  "defaultBlockRequestLimit = 100"

definition defaultAssetDetailsLimit :: int where
  "defaultAssetDetailsLimit = 100"

definition defaultAppSettings :: appSettings where
  "defaultAppSettings =
     \<lparr>BlockRequestLimit = defaultBlockRequestLimit,
      AssetDetailsLimit = defaultAssetDetailsLimit\<rparr>"

text \<open>\<open>proto.TransactionTypeVersion\<close>: the type and version tag read from the payload.\<close>

record TransactionTypeVersion =
  Type :: byte
  Version :: byte

subsection \<open>Channels\<close>

text \<open>
  A reply channel \<open>chan error\<close> is an object on the heap, shared between the caller and
  whoever receives the broadcast message. The heap of reply channels is a list; the
  address of a channel is its index. \<open>make(chan error, 1)\<close> appends a channel with
  capacity one and an empty buffer, so its address is the length of the heap before.
\<close>

record errchan =
  capacity :: nat
  buffer :: "error option list"

type_synonym heap = "errchan list"

definition make_chan :: "nat \<Rightarrow> heap \<Rightarrow> nat \<times> heap" where
  "make_chan n h = (length h, h @ [\<lparr>capacity = n, buffer = []\<rparr>])"

text \<open>\<open>messages.NewBroadcastTransaction(respCh, tx)\<close>: the reply channel (its address) and
  the transaction.\<close>

datatype 'tx InternalMessage = NewBroadcastTransaction nat 'tx

subsection \<open>The application\<close>

text \<open>
  \<open>services.Services\<close>, restricted to what this file reads: the chain id, the wallet (its
  state, of type \<open>'w\<close>) and the internal channel. The internal channel is modelled by the
  sequence of messages it has accepted so far, oldest first; its readers are outside
  this file. \<open>State\<close>, \<open>UtxPool\<close> and \<open>Peers\<close> are references that \<open>newApp\<close> only copies.
\<close>

type_synonym handle = nat

record ('tx, 'w) Services =
  Scheme :: Scheme
  Wallet :: 'w
  InternalChannel :: "'tx InternalMessage list"
  State :: handle
  UtxPool :: handle
  Peers :: handle

record ('tx, 'w) App =
  hashedApiKey :: Digest
  apiKeyEnabled :: bool
  scheduler :: handle
  utx :: handle
  state :: handle
  peers :: handle
  sync :: "handle option"
  services :: "('tx, 'w) Services"
  settings :: appSettings

text \<open>The functions of other packages that this file calls.
  \<open>json_Unmarshal b\<close> is \<open>json.Unmarshal(b, &tt)\<close> on a zero \<open>tt\<close>.
  \<open>GuessTransactionType\<close> returns an empty transaction of the concrete variant, and
  \<open>UnmarshalTransactionFromJSON b scheme realType\<close> fills it in place: the model returns
  the filled transaction. \<open>Load\<close> and \<open>AccountSeeds\<close> are the wallet's methods.\<close>

record ('tx, 'w) collaborators =
  SecureHash :: "bytes \<Rightarrow> error + Digest"
  json_Unmarshal :: "bytes \<Rightarrow> error + TransactionTypeVersion"
  GuessTransactionType :: "TransactionTypeVersion \<Rightarrow> error + 'tx"
  UnmarshalTransactionFromJSON :: "bytes \<Rightarrow> Scheme \<Rightarrow> 'tx \<Rightarrow> error + 'tx"
  GenerateKeyPair :: "bytes \<Rightarrow> error + (SecretKey \<times> PublicKey)"
  NewAddressFromPublicKey :: "Scheme \<Rightarrow> PublicKey \<Rightarrow> error + WavesAddress"
  Load :: "bytes \<Rightarrow> 'w \<Rightarrow> error option \<times> 'w"
  AccountSeeds :: "'w \<Rightarrow> bytes list"

definition newApp ::
  "('tx, 'w) collaborators \<Rightarrow> bytes \<Rightarrow> handle \<Rightarrow> ('tx, 'w) Services \<Rightarrow> appSettings option
     \<Rightarrow> error + ('tx, 'w) App" where
  "newApp env apiKey sched srv settings0 =
     (let settings1 = (case settings0 of None \<Rightarrow> defaultAppSettings | Some s \<Rightarrow> s) in
      case SecureHash env apiKey of
        Inl err \<Rightarrow> Inl err
      | Inr digest \<Rightarrow>
          Inr \<lparr>hashedApiKey = digest,
               apiKeyEnabled = (length apiKey > 0),
               scheduler = sched,
               utx = UtxPool srv,
               state = State srv,
               peers = Peers srv,
               sync = None,
               services = srv,
               settings = settings1\<rparr>)"

definition NewApp ::
  "('tx, 'w) collaborators \<Rightarrow> bytes \<Rightarrow> handle \<Rightarrow> ('tx, 'w) Services \<Rightarrow> error + ('tx, 'w) App" where
  "NewApp env apiKey sched srv = newApp env apiKey sched srv None"

subsection \<open>Authentication and the wallet\<close>

definition checkAuth :: "('tx, 'w) collaborators \<Rightarrow> ('tx, 'w) App \<Rightarrow> bytes \<Rightarrow> error option" where
  "checkAuth env a key =
     (if \<not> apiKeyEnabled a then Some (wrapToAuthError (New ''api key disabled''))
      else case SecureHash env key of
        Inl err \<Rightarrow> Some (Wrap err ''failed to calculate secure hash for API key'')
      | Inr d \<Rightarrow>
          if d \<noteq> hashedApiKey a then Some (wrapToAuthError (New ''invalid api key''))
          else None)"

definition LoadKeys ::
  "('tx, 'w) collaborators \<Rightarrow> bytes \<Rightarrow> bytes \<Rightarrow> ('tx, 'w) App \<Rightarrow> error option \<times> ('tx, 'w) App" where
  "LoadKeys env apiKey password a =
     (case checkAuth env a apiKey of
        Some err \<Rightarrow> (Some err, a)
      | None \<Rightarrow>
          (case Load env password (Wallet (services a)) of
             (r, w) \<Rightarrow> (r, a\<lparr>services := (services a)\<lparr>Wallet := w\<rparr>\<rparr>)))"

text \<open>The loop of \<open>Accounts\<close> over the seeds, with the slice \<open>accounts\<close> built so far.\<close>

fun Accounts_loop ::
  "('tx, 'w) collaborators \<Rightarrow> Scheme \<Rightarrow> bytes list \<Rightarrow> account list \<Rightarrow> error + account list" where
  "Accounts_loop env scheme [] accounts = Inr accounts"
| "Accounts_loop env scheme (seed # seeds) accounts =
     (case GenerateKeyPair env seed of
        Inl err \<Rightarrow> Inl (Wrap err ''failed to generate key pair for seed'')
      | Inr (sk, pk) \<Rightarrow>
          (case NewAddressFromPublicKey env scheme pk of
             Inl err \<Rightarrow> Inl (Wrap err ''failed to generate new address from public key'')
           | Inr addr \<Rightarrow>
               Accounts_loop env scheme seeds (accounts @ [\<lparr>Address = addr, PublicKey = pk\<rparr>])))"

definition Accounts :: "('tx, 'w) collaborators \<Rightarrow> ('tx, 'w) App \<Rightarrow> error + account list" where
  "Accounts env a =
     Accounts_loop env (Scheme (services a)) (AccountSeeds env (Wallet (services a))) []"

subsection \<open>Broadcasting a transaction\<close>

text \<open>
  \<open>TransactionsBroadcast\<close> waits in two \<open>select\<close> statements. Which case of a \<open>select\<close>
  proceeds is decided by the other goroutines and by the caller's context, so it is an
  input of the model, the \<open>schedule\<close>:
  \<^item> \<open>enqueue\<close>: the first \<open>select\<close>. \<open>Some Sent\<close>: the internal channel accepts the
    message; \<open>Some (SendCtxDone err)\<close>: \<open>ctx.Done()\<close> is taken and \<open>ctx.Err()\<close> is
    \<open>err\<close> (not nil, once \<open>ctx.Done()\<close> is closed); \<open>None\<close>: neither case ever becomes
    ready and the call never returns.
  \<^item> \<open>await d\<close>: the second \<open>select\<close>, entered with a timer of duration \<open>d\<close> running.
    \<open>WaitCtxDone err\<close>: \<open>ctx.Done()\<close> is taken; \<open>TimerFired\<close>: the timer's channel is
    taken; \<open>Reply v\<close>: the verdict \<open>v\<close> (nil or an error) is received from the reply
    channel. The timer fires after \<open>d\<close>, so this \<open>select\<close> always proceeds.
  The deferred function only stops or drains the timer and has no effect on the result.
\<close>

datatype sendSelect = Sent | SendCtxDone error

datatype waitSelect = WaitCtxDone error | TimerFired | Reply "error option"

record schedule =
  enqueue :: "sendSelect option"
  await :: "Duration \<Rightarrow> waitSelect"

text \<open>The result is \<open>None\<close> when the call never returns, else \<open>Some\<close> of what it returns;
  the state is the \<open>App\<close> and the heap of reply channels.\<close>

definition TransactionsBroadcast ::
  "('tx, 'w) collaborators \<Rightarrow> schedule \<Rightarrow> bytes \<Rightarrow> ('tx, 'w) App \<times> heap
     \<Rightarrow> (error + 'tx) option \<times> (('tx, 'w) App \<times> heap)" where
  "TransactionsBroadcast env sch b s =
     (case s of (a, h) \<Rightarrow>
       (case json_Unmarshal env b of
          Inl err \<Rightarrow> (Some (Inl (wrapToBadRequestError err)), (a, h))
        | Inr tt \<Rightarrow>
       (case GuessTransactionType env tt of
          Inl err \<Rightarrow> (Some (Inl (wrapToBadRequestError err)), (a, h))
        | Inr realType0 \<Rightarrow>
       (case UnmarshalTransactionFromJSON env b (Scheme (services a)) realType0 of
          Inl err \<Rightarrow> (Some (Inl (wrapToBadRequestError err)), (a, h))
        | Inr realType \<Rightarrow>
            (case make_chan 1 h of (respCh, h1) \<Rightarrow>
              (case enqueue sch of
                 None \<Rightarrow> (None, (a, h1))
               | Some (SendCtxDone cerr) \<Rightarrow>
                   (Some (Inl (Wrap cerr ''failed to send internal'')), (a, h1))
               | Some Sent \<Rightarrow>
                   (let a1 = a\<lparr>services := (services a)\<lparr>InternalChannel :=
                          InternalChannel (services a) @ [NewBroadcastTransaction respCh realType]\<rparr>\<rparr>
                    in case await sch (5 * Second) of
                         WaitCtxDone cerr \<Rightarrow>
                           (Some (Inl (Wrap cerr ''ctx cancelled from client'')), (a1, h1))
                       | TimerFired \<Rightarrow>
                           (Some (Inl (New ''timeout waiting response from internal'')), (a1, h1))
                       | Reply (Some err) \<Rightarrow> (Some (Inl err), (a1, h1))
                       | Reply None \<Rightarrow> (Some (Inr realType), (a1, h1)))))))))"

text \<open>The three decoding steps at the head of \<open>TransactionsBroadcast\<close>, on their own:
  the transaction a payload decodes to under a chain id, or the error of the first
  step that fails.\<close>

definition decode ::
  "('tx, 'w) collaborators \<Rightarrow> Scheme \<Rightarrow> bytes \<Rightarrow> error + 'tx" where
  "decode env scheme b =
     (case json_Unmarshal env b of
        Inl err \<Rightarrow> Inl err
      | Inr tt \<Rightarrow>
          (case GuessTransactionType env tt of
             Inl err \<Rightarrow> Inl err
           | Inr realType0 \<Rightarrow> UnmarshalTransactionFromJSON env b scheme realType0))"

text \<open>The \<open>App\<close> after the internal channel has accepted a broadcast message.\<close>

definition enqueued ::
  "('tx, 'w) App \<Rightarrow> nat \<Rightarrow> 'tx \<Rightarrow> ('tx, 'w) App" where
  "enqueued a respCh tx =
     a\<lparr>services := (services a)\<lparr>InternalChannel :=
          InternalChannel (services a) @ [NewBroadcastTransaction respCh tx]\<rparr>\<rparr>"


text \<open>The reply channel a message carries, and the condition on a state under which
  reply channels are not shared: the messages accepted by the internal channel carry
  pairwise different reply channels, each one allocated and of capacity one.\<close>

definition chan_of :: "'tx InternalMessage \<Rightarrow> nat" where
  "chan_of m = (case m of NewBroadcastTransaction respCh tx \<Rightarrow> respCh)"

definition reply_channels_ok :: "('tx, 'w) App \<times> heap \<Rightarrow> bool" where
  "reply_channels_ok s =
     (case s of (a, h) \<Rightarrow>
        distinct (map chan_of (InternalChannel (services a)))
        \<and> list_all (\<lambda>m. chan_of m < length h \<and> capacity (h ! chan_of m) = 1)
             (InternalChannel (services a)))"

text \<open>What one round of the loop of \<open>Accounts\<close> establishes between a seed and the account
  appended for it.\<close>

definition derives ::
  "('tx, 'w) collaborators \<Rightarrow> Scheme \<Rightarrow> bytes \<Rightarrow> account \<Rightarrow> bool" where
  "derives env scheme seed acc \<longleftrightarrow>
     (\<exists>sk. GenerateKeyPair env seed = Inr (sk, PublicKey acc))
     \<and> NewAddressFromPublicKey env scheme (PublicKey acc) = Inr (Address acc)"

text \<open>
  Modelled from the spec: the four reason codes of the inbound admin broadcast
  (section 6: \<open>BadRequest\<close>, \<open>AuthFailed\<close>, \<open>Timeout\<close>, \<open>InternalError\<close>). The error handler
  of package \<open>api\<close> that turns an error value into a response is not among the sources,
  and \<open>app.go\<close> has typed wrappers for the first two codes only. An error built by
  \<open>wrapToBadRequestError\<close> is \<open>BadRequest\<close>, one built by \<open>wrapToAuthError\<close> is
  \<open>AuthFailed\<close>, the error of the fired timer is \<open>Timeout\<close>, and every other error
  value (a wrapped context error, a foreign error) is \<open>InternalError\<close>.
\<close>

datatype reason = BadRequest | AuthFailed | Timeout | InternalError

fun reason_of :: "error \<Rightarrow> reason" where
  "reason_of (BadRequestError err) = BadRequest"
| "reason_of (AuthError err) = AuthFailed"
| "reason_of (New msg) =
     (if msg = ''timeout waiting response from internal'' then Timeout else InternalError)"
| "reason_of (Wrap err msg) = InternalError"
| "reason_of (Foreign msg) = InternalError"

section \<open>The L2 feed\<close>

subsection \<open>The wire schema: package \<open>blockchain_info\<close>\<close>

text \<open>
  The two messages of the proto3 file, field by field in the order of declaration:
  label (\<open>repeated\<close> or none), type, name and field number.
\<close>

datatype proto_label = Singular | Repeated

datatype proto_type = UInt64 | Bytes | MessageType string

record proto_field =
  field_label :: proto_label
  field_type :: proto_type
  field_name :: string
  field_number :: nat

definition BlockInfo_schema :: "proto_field list" where
  "BlockInfo_schema =
     [\<lparr>field_label = Singular, field_type = UInt64, field_name = ''Height'', field_number = 1\<rparr>,
      \<lparr>field_label = Singular, field_type = Bytes, field_name = ''VRF'', field_number = 2\<rparr>,
      \<lparr>field_label = Singular, field_type = Bytes, field_name = ''BlockID'', field_number = 3\<rparr>,
      \<lparr>field_label = Singular, field_type = MessageType ''waves.Block.Header'',
       field_name = ''BlockHeader'', field_number = 4\<rparr>]"

definition L2ContractDataEntries_schema :: "proto_field list" where
  "L2ContractDataEntries_schema =
     [\<lparr>field_label = Repeated, field_type = MessageType ''waves.DataEntry'',
       field_name = ''DataEntries'', field_number = 5\<rparr>,
      \<lparr>field_label = Singular, field_type = UInt64, field_name = ''Height'', field_number = 1\<rparr>,
      \<lparr>field_label = Singular, field_type = Bytes, field_name = ''BlockID'', field_number = 2\<rparr>]"

text \<open>The values of the two messages. A height is a \<open>uint64\<close> on the wire; it is a
  natural number here, and no arithmetic is done on it. \<open>'hdr\<close> stands for
  \<open>waves.Block.Header\<close> and \<open>'de\<close> for \<open>waves.DataEntry\<close>, both declared in other files.\<close>

record 'hdr BlockInfo =
  Height :: nat
  VRF :: bytes
  BlockID :: bytes
  BlockHeader :: 'hdr

record 'de L2ContractDataEntries =
  DataEntries :: "'de list"
  Height :: nat
  BlockID :: bytes

subsection \<open>Publication of committed blocks\<close>

text \<open>
  Modelled from the spec: the block applier's publication to the L2 feed (section
  4.4, step 5; section 3 for the block and the chain; scenarios S1 and S2). The code
  that commits blocks and appends to the feed is not among the sources; only the two
  messages it appends are. A block carries, of the attributes of section 3, those the
  feed reads; its \<open>parent_id\<close> is the \<open>block_id\<close> of the block one height below.
\<close>

record ('hdr, 'de) block =
  height :: nat
  block_id :: bytes
  parent_id :: bytes
  vrf :: bytes
  header :: 'hdr
  data_entries :: "'de list"

text \<open>Modelled from the spec: the records of the feed (section 6), the two messages
  and \<open>Rollback { height }\<close>.\<close>

datatype ('hdr, 'de) feed_record =
    Info "'hdr BlockInfo"
  | Entries "'de L2ContractDataEntries"
  | Rollback nat

text \<open>
  Modelled from the spec: "append exactly one \<open>BlockInfo\<close> record and one
  \<open>L2ContractDataEntries\<close> record per block", both with the block's height and id.
\<close>

definition block_records :: "('hdr, 'de) block \<Rightarrow> ('hdr, 'de) feed_record list" where
  "block_records b =
     [Info \<lparr>BlockInfo.Height = height b, VRF = vrf b, BlockInfo.BlockID = block_id b,
            BlockHeader = header b\<rparr>,
      Entries \<lparr>DataEntries = data_entries b, L2ContractDataEntries.Height = height b,
               L2ContractDataEntries.BlockID = block_id b\<rparr>]"

text \<open>
  Modelled from the spec: what a commit step that rolls back \<open>d\<close> blocks from a tip at
  height \<open>tip\<close> and then applies the forward sequence \<open>F\<close> appends to the feed: the
  \<open>Rollback\<close> notifications first, walking down from \<open>tip - 1\<close> to \<open>tip - d\<close> (scenario
  S2: from a tip at height 4 back to height 2, \<open>Rollback(3), Rollback(2)\<close>), then the
  records of the blocks of \<open>F\<close> in ascending height order.
\<close>

definition publish :: "nat \<Rightarrow> nat \<Rightarrow> ('hdr, 'de) block list \<Rightarrow> ('hdr, 'de) feed_record list" where
  "publish tip d F = map Rollback (rev [tip - d ..< tip]) @ concat (map block_records F)"

text \<open>
  Modelled from the spec: the forward sequence applies on top of a block when each of
  its blocks is one height above its predecessor and names it as its parent (the
  invariant of section 3).
\<close>

fun links :: "('hdr, 'de) block \<Rightarrow> ('hdr, 'de) block list \<Rightarrow> bool" where
  "links p [] = True"
| "links p (b # bs) = (height b = Suc (height p) \<and> parent_id b = block_id p \<and> links b bs)"

text \<open>
  Modelled from the spec: the applier's state is the canonical chain, genesis first,
  and the feed, oldest record first. A commit step (section 4.4, steps 3 to 5) rolls
  back \<open>d\<close> blocks, never the genesis block and at most \<open>max_rollback\<close>, applies \<open>F\<close> and
  publishes; a step that is refused changes nothing. The validation of the blocks of
  \<open>F\<close> beyond their linkage is left out: \<open>F\<close> stands for the blocks that passed it.
\<close>

record ('hdr, 'de) applier =
  chain :: "('hdr, 'de) block list"
  feed :: "('hdr, 'de) feed_record list"

text \<open>Modelled from the spec: \<open>max_rollback\<close>, by default 2000 blocks (section 4.3).\<close>

definition max_rollback :: nat where
  "max_rollback = 2000"

text \<open>Modelled from the spec: one commit step, \<open>ApplyBlock\<close> steps 3 to 5 or a
  \<open>Rollback\<close> command, given the rollback depth and the forward sequence that fork
  choice computed.\<close>

definition commit ::
  "nat \<Rightarrow> ('hdr, 'de) block list \<Rightarrow> ('hdr, 'de) applier \<Rightarrow> ('hdr, 'de) applier" where
  "commit d F s =
     (let kept = take (length (chain s) - d) (chain s) in
      if d < length (chain s) \<and> d \<le> max_rollback \<and> links (last kept) F
      then \<lparr>chain = kept @ F, feed = feed s @ publish (height (last (chain s))) d F\<rparr>
      else s)"

text \<open>Modelled from the spec: the applier processes one command at a time, in order.\<close>

fun run ::
  "(nat \<times> ('hdr, 'de) block list) list \<Rightarrow> ('hdr, 'de) applier \<Rightarrow> ('hdr, 'de) applier" where
  "run [] s = s"
| "run ((d, F) # steps) s = run steps (commit d F s)"

text \<open>Modelled from the spec: the chain starts at the genesis block, which is not
  published (scenario S1: the feed starts with the block at height 2).\<close>

definition start :: "('hdr, 'de) block \<Rightarrow> ('hdr, 'de) applier" where
  "start genesis = \<lparr>chain = [genesis], feed = []\<rparr>"

text \<open>
  Modelled from the spec: what a subscriber holds after reading the feed. A record of
  a block is appended; \<open>Rollback(h)\<close> drops the records above height \<open>h\<close>, the
  height each record carries being its \<open>record_height\<close>.
\<close>

fun record_height :: "('hdr, 'de) feed_record \<Rightarrow> nat" where
  "record_height (Info i) = BlockInfo.Height i"
| "record_height (Entries e) = L2ContractDataEntries.Height e"
| "record_height (Rollback h) = h"

text \<open>Modelled from the spec: the subscriber reads one record.\<close>

fun deliver ::
  "('hdr, 'de) feed_record list \<Rightarrow> ('hdr, 'de) feed_record \<Rightarrow> ('hdr, 'de) feed_record list" where
  "deliver view (Rollback h) = filter (\<lambda>r. record_height r \<le> h) view"
| "deliver view r = view @ [r]"

text \<open>Modelled from the spec: the subscriber reads a feed from its start.\<close>

definition view_of :: "('hdr, 'de) feed_record list \<Rightarrow> ('hdr, 'de) feed_record list" where
  "view_of fd = foldl deliver [] fd"

text \<open>Modelled from the spec: the invariant of the applier. The chain starts at the
  genesis block \<open>g\<close>, is linked, and the subscriber's view is the records of the blocks
  after \<open>g\<close>.\<close>

definition follows :: "('hdr, 'de) block \<Rightarrow> ('hdr, 'de) applier \<Rightarrow> bool" where
  "follows g s \<longleftrightarrow>
     (case chain s of
        [] \<Rightarrow> False
      | b # rest \<Rightarrow> b = g \<and> links g rest \<and> view_of (feed s) = concat (map block_records rest))"

section \<open>Instances\<close>

subsection \<open>An instance of the collaborators\<close>

text \<open>
  A small instance on which the model runs: a payload is the type byte, the version
  byte, the chain id byte and a body; the only known type is \<open>CHR ''4''\<close>; a transaction
  is its body and is refused under another chain id; the secure hash reverses its
  input; the wallet is the list of its seeds, loaded by the password \<open>''secret''\<close>.
\<close>

definition toy :: "(bytes, bytes list) collaborators" where
  "toy =
     \<lparr>SecureHash = (\<lambda>b. Inr (rev b)),
      json_Unmarshal = (\<lambda>b. case b of
          t # v # _ \<Rightarrow> Inr \<lparr>Type = t, Version = v\<rparr>
        | _ \<Rightarrow> Inl (Foreign ''unexpected end of JSON input'')),
      GuessTransactionType = (\<lambda>tt.
          if Type tt = CHR ''4'' then Inr [] else Inl (Foreign ''unknown transaction type'')),
      UnmarshalTransactionFromJSON = (\<lambda>b scheme realType. case b of
          _ # _ # c # body \<Rightarrow> if c = scheme then Inr body else Inl (Foreign ''invalid chain id'')
        | _ \<Rightarrow> Inl (Foreign ''missing chain id'')),
      GenerateKeyPair = (\<lambda>seed.
          if seed = [] then Inl (Foreign ''empty seed'') else Inr (seed, rev seed)),
      NewAddressFromPublicKey = (\<lambda>scheme pk. Inr (scheme # pk)),
      Load = (\<lambda>password w.
          if password = ''secret'' then (None, w @ [''seed1''])
          else (Some (Foreign ''invalid password''), w)),
      AccountSeeds = (\<lambda>w. w)\<rparr>"

definition toy_services :: "(bytes, bytes list) Services" where
  "toy_services =
     \<lparr>Scheme = CHR ''W'', Wallet = [''ab'', ''cd''], InternalChannel = [],
      State = 0, UtxPool = 1, Peers = 2\<rparr>"

text \<open>The \<open>App\<close> that \<open>newApp\<close> builds on \<open>toy_services\<close> from an API key.\<close>

definition toy_app :: "bytes \<Rightarrow> (bytes, bytes list) App" where
  "toy_app apiKey =
     \<lparr>hashedApiKey = rev apiKey, apiKeyEnabled = (length apiKey > 0), scheduler = 3,
      utx = 1, state = 0, peers = 2, sync = None, services = toy_services,
      settings = defaultAppSettings\<rparr>"


subsection \<open>Schedules\<close>

text \<open>The internal channel never accepts the message, the context is never
  cancelled, and no verdict is ever sent.\<close>

definition stalled :: schedule where
  "stalled = \<lparr>enqueue = None, await = (\<lambda>d. TimerFired)\<rparr>"

text \<open>The caller cancels while the message waits for the internal channel.\<close>

definition cancelled_in_queue :: schedule where
  "cancelled_in_queue =
     \<lparr>enqueue = Some (SendCtxDone (Foreign ''context canceled'')), await = (\<lambda>d. TimerFired)\<rparr>"

text \<open>The message is accepted and the caller cancels while the verdict is awaited.\<close>

definition cancelled_waiting :: schedule where
  "cancelled_waiting =
     \<lparr>enqueue = Some Sent, await = (\<lambda>d. WaitCtxDone (Foreign ''context canceled''))\<rparr>"

text \<open>The message is accepted and no verdict arrives before a timer of five seconds
  fires.\<close>

definition no_verdict :: schedule where
  "no_verdict =
     \<lparr>enqueue = Some Sent, await = (\<lambda>d. if d = 5000000000 then TimerFired else Reply None)\<rparr>"

text \<open>The message is accepted and the verdict \<open>v\<close> is received.\<close>

definition verdict :: "error option \<Rightarrow> schedule" where
  "verdict v = \<lparr>enqueue = Some Sent, await = (\<lambda>d. Reply v)\<rparr>"

subsection \<open>Blocks\<close>

text \<open>The blocks of scenario S2 of the spec, by height, id and parent id, and the
  genesis block at height 1.\<close>

definition blk :: "nat \<Rightarrow> string \<Rightarrow> string \<Rightarrow> (unit, string) block" where
  "blk h i p =
     \<lparr>height = h, block_id = i, parent_id = p, vrf = ''v'' @ i, header = (),
      data_entries = [''k'' @ i]\<rparr>"

definition G1 :: "(unit, string) block" where
  "G1 = blk 1 ''G'' []"

section \<open>Properties of the administration surface\<close>

subsection \<open>Construction, authentication and the wallet\<close>

lemma newApp_Inr:
  "newApp env apiKey sched srv st = Inr a \<Longrightarrow>
     SecureHash env apiKey = Inr (hashedApiKey a) \<and> apiKeyEnabled a = (apiKey \<noteq> [])
     \<and> services a = srv"
  by (auto simp: newApp_def Let_def split: sum.splits)

lemma newApp_toy: "newApp toy k 3 toy_services None = Inr (toy_app k)"
  by (simp add: newApp_def toy_def toy_app_def toy_services_def)

lemma checkAuth_disabled:
  "\<not> apiKeyEnabled a \<Longrightarrow> checkAuth env a key = Some (AuthError (New ''api key disabled''))"
  by (simp add: checkAuth_def wrapToAuthError_def)

lemma checkAuth_None_iff:
  "checkAuth env a key = None \<longleftrightarrow> apiKeyEnabled a \<and> SecureHash env key = Inr (hashedApiKey a)"
  by (auto simp: checkAuth_def split: sum.splits)

lemma LoadKeys_rejected:
  "checkAuth env a apiKey = Some err \<Longrightarrow> LoadKeys env apiKey password a = (Some err, a)"
  by (simp add: LoadKeys_def)

text \<open>
  Claim C8. If the \<open>App\<close> is constructed with an empty API key, then \<open>apiKeyEnabled\<close> is
  false and \<open>checkAuth\<close> rejects every candidate key, the empty one included, so
  \<open>LoadKeys\<close> always fails with an auth error and leaves the \<open>App\<close> as it was. For any
  construction-time key, \<open>checkAuth\<close> accepts a presented key exactly when the
  construction-time key is not empty and the secure hash of the presented key is the
  stored hash, which is the secure hash of the construction-time key; \<open>LoadKeys\<close>
  succeeds only then.
\<close>

theorem empty_api_key_disables_auth:
  assumes "newApp env apiKey sched srv st = Inr a"
  shows "(apiKey = [] \<longrightarrow>
           \<not> apiKeyEnabled a
           \<and> (\<forall>key. checkAuth env a key = Some (AuthError (New ''api key disabled'')))
           \<and> (\<forall>key password.
                 LoadKeys env key password a = (Some (AuthError (New ''api key disabled'')), a)))
       \<and> SecureHash env apiKey = Inr (hashedApiKey a)
       \<and> (\<forall>key. checkAuth env a key = None \<longleftrightarrow>
                 apiKey \<noteq> [] \<and> SecureHash env key = Inr (hashedApiKey a))
       \<and> (\<forall>key password. fst (LoadKeys env key password a) = None \<longrightarrow>
                 apiKey \<noteq> [] \<and> SecureHash env key = Inr (hashedApiKey a))"
proof -
  from assms have h: "SecureHash env apiKey = Inr (hashedApiKey a)"
    and en: "apiKeyEnabled a = (apiKey \<noteq> [])"
    by (simp_all add: newApp_Inr)
  have "\<not> apiKeyEnabled a \<and>
        (\<forall>key. checkAuth env a key = Some (AuthError (New ''api key disabled''))) \<and>
        (\<forall>key password.
            LoadKeys env key password a = (Some (AuthError (New ''api key disabled'')), a))"
    if "apiKey = []"
  proof -
    from that en have dis: "\<not> apiKeyEnabled a" by simp
    then show ?thesis by (simp add: checkAuth_disabled LoadKeys_rejected)
  qed
  moreover have auth: "checkAuth env a key = None \<longleftrightarrow>
      apiKey \<noteq> [] \<and> SecureHash env key = Inr (hashedApiKey a)" for key
    by (simp add: checkAuth_None_iff en)
  moreover have "apiKey \<noteq> [] \<and> SecureHash env key = Inr (hashedApiKey a)"
    if "fst (LoadKeys env key password a) = None" for key password
  proof (cases "checkAuth env a key")
    case None
    then show ?thesis by (simp add: auth)
  next
    case (Some err)
    with that show ?thesis by (simp add: LoadKeys_rejected)
  qed
  ultimately show ?thesis using h by blast
qed

theorem empty_api_key_disables_auth_witness:
  "newApp toy [] 3 toy_services None = Inr (toy_app [])
   \<and> \<not> apiKeyEnabled (toy_app [])
   \<and> checkAuth toy (toy_app []) [] = Some (AuthError (New ''api key disabled''))
   \<and> LoadKeys toy [] ''secret'' (toy_app []) =
       (Some (AuthError (New ''api key disabled'')), toy_app [])
   \<and> newApp toy ''k'' 3 toy_services None = Inr (toy_app ''k'')
   \<and> checkAuth toy (toy_app ''k'') ''k'' = None
   \<and> checkAuth toy (toy_app ''k'') [] = Some (AuthError (New ''invalid api key''))
   \<and> fst (LoadKeys toy ''k'' ''secret'' (toy_app ''k'')) = None"
  using empty_api_key_disables_auth [of toy "[]" 3 toy_services None "toy_app []"]
    empty_api_key_disables_auth [of toy "''k''" 3 toy_services None "toy_app ''k''"]
  by (simp add: newApp_toy)
    (simp add: toy_app_def toy_def toy_services_def checkAuth_def LoadKeys_def wrapToAuthError_def)

subsection \<open>Accounts\<close>

lemma Accounts_loop_Inr_iff:
  "Accounts_loop env scheme seeds acc = Inr accounts \<longleftrightarrow>
     (\<exists>new. accounts = acc @ new \<and> list_all2 (derives env scheme) seeds new)"
proof (induction seeds arbitrary: acc)
  case Nil
  then show ?case by auto
next
  case (Cons seed seeds)
  show ?case
  proof (cases "GenerateKeyPair env seed")
    case (Inl err)
    then show ?thesis by (auto simp: derives_def list_all2_Cons1)
  next
    case (Inr kp)
    obtain sk pk where kp: "kp = (sk, pk)" by (cases kp)
    show ?thesis
    proof (cases "NewAddressFromPublicKey env scheme pk")
      case (Inl err)
      with Inr kp show ?thesis by (auto simp: derives_def list_all2_Cons1)
    next
      case addr: (Inr addr)
      have "derives env scheme seed x \<longleftrightarrow> x = \<lparr>Address = addr, PublicKey = pk\<rparr>" for x :: account
        using Inr kp addr by (cases x) (auto simp: derives_def)
      with Inr kp addr Cons.IH [of "acc @ [\<lparr>Address = addr, PublicKey = pk\<rparr>]"]
      show ?thesis by (auto simp: list_all2_Cons1)
    qed
  qed
qed

lemma Accounts_Inr_iff:
  "Accounts env a = Inr accounts \<longleftrightarrow>
     list_all2 (derives env (Scheme (services a))) (AccountSeeds env (Wallet (services a))) accounts"
  by (simp add: Accounts_def Accounts_loop_Inr_iff)

lemma list_all2_ex_iff:
  "(\<exists>ys. list_all2 P xs ys) \<longleftrightarrow> (\<forall>x \<in> set xs. \<exists>y. P x y)"
  by (induction xs) (auto simp: list_all2_Cons1)

lemma Accounts_fails_iff:
  "isl (Accounts env a) \<longleftrightarrow>
     (\<exists>seed \<in> set (AccountSeeds env (Wallet (services a))).
        \<not> (\<exists>acc. derives env (Scheme (services a)) seed acc))"
proof -
  have "isl (Accounts env a) \<longleftrightarrow> \<not> (\<exists>accounts. Accounts env a = Inr accounts)"
    by (cases "Accounts env a") auto
  then show ?thesis by (simp add: Accounts_Inr_iff list_all2_ex_iff)
qed

lemma derives_ex_iff:
  "(\<exists>acc. derives env scheme seed acc) \<longleftrightarrow>
     (\<exists>sk pk addr. GenerateKeyPair env seed = Inr (sk, pk)
        \<and> NewAddressFromPublicKey env scheme pk = Inr addr)"
proof
  assume "\<exists>acc. derives env scheme seed acc"
  then show "\<exists>sk pk addr. GenerateKeyPair env seed = Inr (sk, pk)
        \<and> NewAddressFromPublicKey env scheme pk = Inr addr"
    by (auto simp: derives_def)
next
  assume "\<exists>sk pk addr. GenerateKeyPair env seed = Inr (sk, pk)
        \<and> NewAddressFromPublicKey env scheme pk = Inr addr"
  then obtain sk pk addr where "GenerateKeyPair env seed = Inr (sk, pk)"
    and "NewAddressFromPublicKey env scheme pk = Inr addr" by blast
  then have "derives env scheme seed \<lparr>Address = addr, PublicKey = pk\<rparr>"
    by (simp add: derives_def)
  then show "\<exists>acc. derives env scheme seed acc" ..
qed

text \<open>
  Claim C9. \<open>Accounts\<close> is all-or-nothing. It returns a list of accounts exactly when
  that list has one account per wallet seed, in the order of the seeds, each holding
  the public key generated from its seed and the address derived from that key under
  the configured \<open>Scheme\<close>. It returns an error, and so no list at all, exactly when the
  key pair or the address fails for at least one seed.
\<close>

theorem Accounts_all_or_nothing:
  "(Accounts env a = Inr accounts \<longleftrightarrow>
      list_all2
        (\<lambda>seed acc.
           (\<exists>sk. GenerateKeyPair env seed = Inr (sk, PublicKey acc))
           \<and> NewAddressFromPublicKey env (Scheme (services a)) (PublicKey acc) = Inr (Address acc))
        (AccountSeeds env (Wallet (services a))) accounts)
   \<and> (isl (Accounts env a) \<longleftrightarrow>
        (\<exists>seed \<in> set (AccountSeeds env (Wallet (services a))).
           \<not> (\<exists>sk pk addr. GenerateKeyPair env seed = Inr (sk, pk)
                \<and> NewAddressFromPublicKey env (Scheme (services a)) pk = Inr addr)))"
proof -
  have "derives env (Scheme (services a)) =
      (\<lambda>seed acc.
           (\<exists>sk. GenerateKeyPair env seed = Inr (sk, PublicKey acc))
           \<and> NewAddressFromPublicKey env (Scheme (services a)) (PublicKey acc) = Inr (Address acc))"
    by (intro ext) (simp add: derives_def)
  with Accounts_Inr_iff [of env a accounts] have success: "Accounts env a = Inr accounts \<longleftrightarrow>
      list_all2
        (\<lambda>seed acc.
           (\<exists>sk. GenerateKeyPair env seed = Inr (sk, PublicKey acc))
           \<and> NewAddressFromPublicKey env (Scheme (services a)) (PublicKey acc) = Inr (Address acc))
        (AccountSeeds env (Wallet (services a))) accounts"
    by simp
  have failure: "isl (Accounts env a) \<longleftrightarrow>
        (\<exists>seed \<in> set (AccountSeeds env (Wallet (services a))).
           \<not> (\<exists>sk pk addr. GenerateKeyPair env seed = Inr (sk, pk)
                \<and> NewAddressFromPublicKey env (Scheme (services a)) pk = Inr addr))"
    unfolding Accounts_fails_iff derives_ex_iff ..
  from success failure show ?thesis ..
qed

theorem Accounts_all_or_nothing_witness:
  "Accounts toy (toy_app ''k'') =
     Inr [\<lparr>Address = ''Wba'', PublicKey = ''ba''\<rparr>, \<lparr>Address = ''Wdc'', PublicKey = ''dc''\<rparr>]
   \<and> AccountSeeds toy (Wallet (services (toy_app ''k''))) = [''ab'', ''cd'']
   \<and> GenerateKeyPair toy ''ab'' = Inr (''ab'', ''ba'')
   \<and> NewAddressFromPublicKey toy (Scheme (services (toy_app ''k''))) ''ba'' = Inr ''Wba''
   \<and> isl (Accounts toy ((toy_app ''k'')\<lparr>services := toy_services\<lparr>Wallet := [''ab'', []]\<rparr>\<rparr>))"
  using Accounts_all_or_nothing [of toy "toy_app ''k''"
      "[\<lparr>Address = ''Wba'', PublicKey = ''ba''\<rparr>, \<lparr>Address = ''Wdc'', PublicKey = ''dc''\<rparr>]"]
    Accounts_all_or_nothing [of toy
      "(toy_app ''k'')\<lparr>services := toy_services\<lparr>Wallet := [''ab'', []]\<rparr>\<rparr>" "[]"]
  by (simp add: toy_def toy_app_def toy_services_def)

subsection \<open>Broadcast\<close>

text \<open>\<open>TransactionsBroadcast\<close> by cases: on the decoding, on the first \<open>select\<close> and on
  the second.\<close>

lemma TransactionsBroadcast_decode:
  "TransactionsBroadcast env sch b (a, h) =
     (case decode env (Scheme (services a)) b of
        Inl err \<Rightarrow> (Some (Inl (BadRequestError err)), (a, h))
      | Inr tx \<Rightarrow>
          (case enqueue sch of
             None \<Rightarrow> (None, (a, h @ [\<lparr>capacity = 1, buffer = []\<rparr>]))
           | Some (SendCtxDone cerr) \<Rightarrow>
               (Some (Inl (Wrap cerr ''failed to send internal'')),
                (a, h @ [\<lparr>capacity = 1, buffer = []\<rparr>]))
           | Some Sent \<Rightarrow>
               (case await sch (5 * Second) of
                  WaitCtxDone cerr \<Rightarrow> Some (Inl (Wrap cerr ''ctx cancelled from client''))
                | TimerFired \<Rightarrow> Some (Inl (New ''timeout waiting response from internal''))
                | Reply (Some err) \<Rightarrow> Some (Inl err)
                | Reply None \<Rightarrow> Some (Inr tx),
                (enqueued a (length h) tx, h @ [\<lparr>capacity = 1, buffer = []\<rparr>]))))"
  by (simp add: TransactionsBroadcast_def decode_def make_chan_def enqueued_def Let_def
      wrapToBadRequestError_def
      split: sum.splits option.splits sendSelect.splits waitSelect.splits)

lemma decode_Inl_iff:
  "decode env scheme b = Inl err \<longleftrightarrow>
     json_Unmarshal env b = Inl err
     \<or> (\<exists>tt. json_Unmarshal env b = Inr tt \<and> GuessTransactionType env tt = Inl err)
     \<or> (\<exists>tt realType. json_Unmarshal env b = Inr tt \<and> GuessTransactionType env tt = Inr realType
           \<and> UnmarshalTransactionFromJSON env b scheme realType = Inl err)"
  by (auto simp: decode_def split: sum.splits)

lemma decode_Inr_iff:
  "decode env scheme b = Inr tx \<longleftrightarrow>
     (\<exists>tt realType. json_Unmarshal env b = Inr tt \<and> GuessTransactionType env tt = Inr realType
           \<and> UnmarshalTransactionFromJSON env b scheme realType = Inr tx)"
  by (auto simp: decode_def split: sum.splits)

lemma toy_decode_ok: "decode toy (Scheme (services (toy_app k))) ''42Whello'' = Inr ''hello''"
  by (simp add: decode_def toy_def toy_app_def toy_services_def)

lemma toy_decode_mismatch:
  "decode toy (Scheme (services (toy_app k))) ''42Thello'' = Inl (Foreign ''invalid chain id'')"
  by (simp add: decode_def toy_def toy_app_def toy_services_def)

lemma reply_channels_ok_enqueued:
  assumes "reply_channels_ok (a, h)"
  shows "reply_channels_ok (enqueued a (length h) tx, h @ [\<lparr>capacity = 1, buffer = []\<rparr>])"
proof -
  let ?q = "InternalChannel (services a)"
  from assms have d: "distinct (map chan_of ?q)"
    and old: "\<forall>m \<in> set ?q. chan_of m < length h \<and> capacity (h ! chan_of m) = 1"
    by (simp_all add: reply_channels_ok_def list_all_iff)
  from old have fresh: "length h \<notin> chan_of ` set ?q" by auto
  have q': "InternalChannel (services (enqueued a (length h) tx)) =
      ?q @ [NewBroadcastTransaction (length h) tx]"
    by (simp add: enqueued_def)
  from old have "\<forall>m \<in> set ?q. chan_of m < Suc (length h)
      \<and> capacity ((h @ [\<lparr>capacity = 1, buffer = []\<rparr>]) ! chan_of m) = 1"
    by (auto simp: nth_append)
  with d fresh show ?thesis
    by (simp add: reply_channels_ok_def q' list_all_iff chan_of_def)
qed

lemma reply_channels_ok_grow:
  assumes "reply_channels_ok (a, h)"
  shows "reply_channels_ok (a, h @ [c])"
  using assms by (auto simp: reply_channels_ok_def list_all_iff nth_append)

text \<open>
  Claim C1, as stated, fails. The claim promises a \<open>Timeout\<close> error after five
  seconds whenever no verdict arrives, in particular while the applier's command queue
  is stalled. The timer is created only after the internal channel has accepted the
  message. On a payload that decodes, with a stalled queue that never accepts the
  message and no verdict ever sent, the call does not return when the context is
  never cancelled, and returns the wrapped context error, not the timeout, when the
  caller cancels.
\<close>

theorem stalled_queue_gives_no_timeout:
  "decode toy (Scheme (services (toy_app ''k''))) ''42Whello'' = Inr ''hello''
   \<and> enqueue stalled = None
   \<and> TransactionsBroadcast toy stalled ''42Whello'' (toy_app ''k'', []) =
       (None, (toy_app ''k'', [\<lparr>capacity = 1, buffer = []\<rparr>]))
   \<and> fst (TransactionsBroadcast toy cancelled_in_queue ''42Whello'' (toy_app ''k'', [])) =
       Some (Inl (Wrap (Foreign ''context canceled'') ''failed to send internal''))"
  by (simp add: TransactionsBroadcast_decode toy_decode_ok stalled_def cancelled_in_queue_def)

text \<open>
  Claim C1, amended. For a payload that decodes: once the internal channel has
  accepted the message, if the timer of five seconds (\<open>5 * Second\<close>, that is 5000000000
  nanoseconds), started after the message was accepted, is the case taken while the
  reply is awaited, the caller receives the error
  \<open>timeout waiting response from internal\<close>, and the message is still in the internal
  channel, with a reply channel of its own. While the internal channel does not accept
  the message and the context is not cancelled, the call does not return and nothing
  is enqueued.
\<close>

theorem timeout_once_enqueued:
  assumes "decode env (Scheme (services a)) b = Inr tx"
  shows "(enqueue sch = Some Sent \<and> await sch (5 * Second) = TimerFired \<longrightarrow>
            TransactionsBroadcast env sch b (a, h) =
              (Some (Inl (New ''timeout waiting response from internal'')),
               (enqueued a (length h) tx, h @ [\<lparr>capacity = 1, buffer = []\<rparr>]))
            \<and> InternalChannel (services (enqueued a (length h) tx)) =
                InternalChannel (services a) @ [NewBroadcastTransaction (length h) tx])
       \<and> (enqueue sch = None \<longrightarrow>
            TransactionsBroadcast env sch b (a, h) =
              (None, (a, h @ [\<lparr>capacity = 1, buffer = []\<rparr>])))
       \<and> 5 * Second = 5000000000"
  using assms by (simp add: TransactionsBroadcast_decode Second_def enqueued_def)

theorem timeout_once_enqueued_witness:
  "decode toy (Scheme (services (toy_app ''k''))) ''42Whello'' = Inr ''hello''
   \<and> enqueue no_verdict = Some Sent \<and> await no_verdict (5 * Second) = TimerFired
   \<and> TransactionsBroadcast toy no_verdict ''42Whello'' (toy_app ''k'', []) =
       (Some (Inl (New ''timeout waiting response from internal'')),
        (enqueued (toy_app ''k'') 0 ''hello'', [\<lparr>capacity = 1, buffer = []\<rparr>]))
   \<and> InternalChannel (services (enqueued (toy_app ''k'') 0 ''hello'')) =
       [NewBroadcastTransaction 0 ''hello'']
   \<and> enqueue stalled = None
   \<and> TransactionsBroadcast toy stalled ''42Whello'' (toy_app ''k'', []) =
       (None, (toy_app ''k'', [\<lparr>capacity = 1, buffer = []\<rparr>]))"
  using timeout_once_enqueued [where sch = no_verdict and h = "[]", OF toy_decode_ok [of "''k''"]]
    timeout_once_enqueued [where sch = stalled and h = "[]", OF toy_decode_ok [of "''k''"]]
    toy_decode_ok [of "''k''"]
  by (simp add: no_verdict_def stalled_def Second_def toy_app_def toy_services_def)

text \<open>
  Claim C3, as stated, fails. The claim promises, for every payload, that the operation
  returns the typed transaction or one of four errors. On a payload that decodes, when
  the internal channel never accepts the message and the context is never cancelled,
  the first \<open>select\<close> never proceeds and the call returns nothing.
\<close>

theorem broadcast_may_not_return:
  "json_Unmarshal toy ''41Wabc'' = Inr \<lparr>Type = CHR ''4'', Version = CHR ''1''\<rparr>
   \<and> GuessTransactionType toy \<lparr>Type = CHR ''4'', Version = CHR ''1''\<rparr> = Inr []
   \<and> UnmarshalTransactionFromJSON toy ''41Wabc'' (Scheme (services (toy_app ''key''))) [] = Inr ''abc''
   \<and> fst (TransactionsBroadcast toy stalled ''41Wabc'' (toy_app ''key'', [])) = None"
  by (simp add: TransactionsBroadcast_def toy_def toy_app_def toy_services_def stalled_def
      make_chan_def)

text \<open>
  Claim C3, amended. A payload that fails JSON parsing, type guessing or unmarshalling
  under the configured \<open>Scheme\<close> yields \<open>BadRequest\<close> with the error of the failing step,
  and the state is unchanged: no reply channel is made and nothing is sent. For a
  payload whose type and version tag identify a variant and which unmarshals into the
  transaction \<open>tx\<close>, the call returns exactly this: nothing, while the first \<open>select\<close>
  never proceeds; the context's error wrapped (\<open>InternalError\<close>) when the caller
  cancels in either \<open>select\<close>; the timeout error (\<open>Timeout\<close>) when the timer of
  \<open>5 * Second\<close> fires; the verdict's error unchanged when the verdict is an error; and
  \<open>tx\<close> when the verdict is nil. \<open>TransactionsBroadcast\<close> builds no \<open>AuthFailed\<close> error
  itself.
\<close>

theorem broadcast_response:
  "(json_Unmarshal env b = Inl err
      \<or> (\<exists>tt. json_Unmarshal env b = Inr tt \<and> GuessTransactionType env tt = Inl err)
      \<or> (\<exists>tt realType. json_Unmarshal env b = Inr tt
            \<and> GuessTransactionType env tt = Inr realType
            \<and> UnmarshalTransactionFromJSON env b (Scheme (services a)) realType = Inl err)
     \<longrightarrow> TransactionsBroadcast env sch b (a, h) = (Some (Inl (BadRequestError err)), (a, h))
         \<and> reason_of (BadRequestError err) = BadRequest)
   \<and> (json_Unmarshal env b = Inr tt \<and> GuessTransactionType env tt = Inr realType
        \<and> UnmarshalTransactionFromJSON env b (Scheme (services a)) realType = Inr tx
     \<longrightarrow> fst (TransactionsBroadcast env sch b (a, h)) =
           (case enqueue sch of
              None \<Rightarrow> None
            | Some (SendCtxDone cerr) \<Rightarrow> Some (Inl (Wrap cerr ''failed to send internal''))
            | Some Sent \<Rightarrow>
                (case await sch (5 * Second) of
                   WaitCtxDone cerr \<Rightarrow> Some (Inl (Wrap cerr ''ctx cancelled from client''))
                 | TimerFired \<Rightarrow> Some (Inl (New ''timeout waiting response from internal''))
                 | Reply (Some e) \<Rightarrow> Some (Inl e)
                 | Reply None \<Rightarrow> Some (Inr tx))))
   \<and> reason_of (Wrap cerr ''failed to send internal'') = InternalError
   \<and> reason_of (Wrap cerr ''ctx cancelled from client'') = InternalError
   \<and> reason_of (New ''timeout waiting response from internal'') = Timeout"
proof (intro conjI impI)
  assume "json_Unmarshal env b = Inl err
      \<or> (\<exists>tt. json_Unmarshal env b = Inr tt \<and> GuessTransactionType env tt = Inl err)
      \<or> (\<exists>tt realType. json_Unmarshal env b = Inr tt
            \<and> GuessTransactionType env tt = Inr realType
            \<and> UnmarshalTransactionFromJSON env b (Scheme (services a)) realType = Inl err)"
  then have "decode env (Scheme (services a)) b = Inl err"
    by (simp add: decode_Inl_iff)
  then show "TransactionsBroadcast env sch b (a, h) = (Some (Inl (BadRequestError err)), (a, h))"
    by (simp add: TransactionsBroadcast_decode)
next
  assume "json_Unmarshal env b = Inr tt \<and> GuessTransactionType env tt = Inr realType
        \<and> UnmarshalTransactionFromJSON env b (Scheme (services a)) realType = Inr tx"
  then have "decode env (Scheme (services a)) b = Inr tx"
    by (simp add: decode_def)
  then show "fst (TransactionsBroadcast env sch b (a, h)) =
           (case enqueue sch of
              None \<Rightarrow> None
            | Some (SendCtxDone cerr) \<Rightarrow> Some (Inl (Wrap cerr ''failed to send internal''))
            | Some Sent \<Rightarrow>
                (case await sch (5 * Second) of
                   WaitCtxDone cerr \<Rightarrow> Some (Inl (Wrap cerr ''ctx cancelled from client''))
                 | TimerFired \<Rightarrow> Some (Inl (New ''timeout waiting response from internal''))
                 | Reply (Some e) \<Rightarrow> Some (Inl e)
                 | Reply None \<Rightarrow> Some (Inr tx)))"
    by (simp add: TransactionsBroadcast_decode
        split: option.splits sendSelect.splits waitSelect.splits)
qed simp_all

theorem broadcast_response_witness:
  "json_Unmarshal toy ''4'' = Inl (Foreign ''unexpected end of JSON input'')
   \<and> TransactionsBroadcast toy (verdict None) ''4'' (toy_app ''k'', []) =
       (Some (Inl (BadRequestError (Foreign ''unexpected end of JSON input''))), (toy_app ''k'', []))
   \<and> json_Unmarshal toy ''42Whello'' = Inr \<lparr>Type = CHR ''4'', Version = CHR ''2''\<rparr>
   \<and> GuessTransactionType toy \<lparr>Type = CHR ''4'', Version = CHR ''2''\<rparr> = Inr []
   \<and> UnmarshalTransactionFromJSON toy ''42Whello'' (Scheme (services (toy_app ''k''))) [] =
       Inr ''hello''
   \<and> fst (TransactionsBroadcast toy (verdict None) ''42Whello'' (toy_app ''k'', [])) =
       Some (Inr ''hello'')
   \<and> fst (TransactionsBroadcast toy (verdict (Some (Foreign ''rejected''))) ''42Whello''
        (toy_app ''k'', [])) = Some (Inl (Foreign ''rejected''))
   \<and> fst (TransactionsBroadcast toy no_verdict ''42Whello'' (toy_app ''k'', [])) =
       Some (Inl (New ''timeout waiting response from internal''))
   \<and> fst (TransactionsBroadcast toy cancelled_waiting ''42Whello'' (toy_app ''k'', [])) =
       Some (Inl (Wrap (Foreign ''context canceled'') ''ctx cancelled from client''))
   \<and> fst (TransactionsBroadcast toy cancelled_in_queue ''42Whello'' (toy_app ''k'', [])) =
       Some (Inl (Wrap (Foreign ''context canceled'') ''failed to send internal''))
   \<and> fst (TransactionsBroadcast toy stalled ''42Whello'' (toy_app ''k'', [])) = None"
proof -
  have j: "json_Unmarshal toy ''4'' = Inl (Foreign ''unexpected end of JSON input'')"
    by (simp add: toy_def)
  have steps: "json_Unmarshal toy ''42Whello'' = Inr \<lparr>Type = CHR ''4'', Version = CHR ''2''\<rparr>"
    "GuessTransactionType toy \<lparr>Type = CHR ''4'', Version = CHR ''2''\<rparr> = Inr []"
    "UnmarshalTransactionFromJSON toy ''42Whello'' (Scheme (services (toy_app ''k''))) [] =
       Inr ''hello''"
    by (simp_all add: toy_def toy_app_def toy_services_def)
  note ok = broadcast_response [where env = toy and b = "''42Whello''" and a = "toy_app ''k''"
      and h = "[]" and tt = "\<lparr>Type = CHR ''4'', Version = CHR ''2''\<rparr>" and realType = "[]"
      and tx = "''hello''" and err = "Foreign ''none''" and cerr = "Foreign ''none''"]
  from broadcast_response [where env = toy and b = "''4''" and a = "toy_app ''k''"
      and h = "[]" and sch = "verdict None" and err = "Foreign ''unexpected end of JSON input''"
      and tt = "\<lparr>Type = CHR ''4'', Version = CHR ''2''\<rparr>" and realType = "[]" and tx = "[]"
      and cerr = "Foreign ''none''"]
    ok [where sch = "verdict None"] ok [where sch = "verdict (Some (Foreign ''rejected''))"]
    ok [where sch = no_verdict] ok [where sch = cancelled_waiting]
    ok [where sch = cancelled_in_queue] ok [where sch = stalled] j steps
  show ?thesis
    by (simp add: verdict_def no_verdict_def cancelled_waiting_def cancelled_in_queue_def
        stalled_def Second_def)
qed

text \<open>
  Claim C4. The broadcast is bound to the caller's cancellation signal in both waits.
  For a payload that decodes: when \<open>ctx.Done()\<close> is the case taken while the message
  waits for the internal channel, the call returns \<open>ctx.Err()\<close> wrapped with
  \<open>failed to send internal\<close> and nothing has been sent; when the message was sent and
  \<open>ctx.Done()\<close> is the case taken while the verdict is awaited, the call returns
  \<open>ctx.Err()\<close> wrapped with \<open>ctx cancelled from client\<close>, and the message it sent
  stays in the internal channel.
\<close>

theorem cancellation_returns_context_error:
  assumes "decode env (Scheme (services a)) b = Inr tx"
  shows "(enqueue sch = Some (SendCtxDone cerr) \<longrightarrow>
            TransactionsBroadcast env sch b (a, h) =
              (Some (Inl (Wrap cerr ''failed to send internal'')),
               (a, h @ [\<lparr>capacity = 1, buffer = []\<rparr>])))
       \<and> (enqueue sch = Some Sent \<and> await sch (5 * Second) = WaitCtxDone cerr \<longrightarrow>
            TransactionsBroadcast env sch b (a, h) =
              (Some (Inl (Wrap cerr ''ctx cancelled from client'')),
               (enqueued a (length h) tx, h @ [\<lparr>capacity = 1, buffer = []\<rparr>])))"
  using assms by (simp add: TransactionsBroadcast_decode)

theorem cancellation_returns_context_error_witness:
  "decode toy (Scheme (services (toy_app ''k''))) ''42Whello'' = Inr ''hello''
   \<and> enqueue cancelled_in_queue = Some (SendCtxDone (Foreign ''context canceled''))
   \<and> TransactionsBroadcast toy cancelled_in_queue ''42Whello'' (toy_app ''k'', []) =
       (Some (Inl (Wrap (Foreign ''context canceled'') ''failed to send internal'')),
        (toy_app ''k'', [\<lparr>capacity = 1, buffer = []\<rparr>]))
   \<and> enqueue cancelled_waiting = Some Sent
   \<and> await cancelled_waiting (5 * Second) = WaitCtxDone (Foreign ''context canceled'')
   \<and> TransactionsBroadcast toy cancelled_waiting ''42Whello'' (toy_app ''k'', []) =
       (Some (Inl (Wrap (Foreign ''context canceled'') ''ctx cancelled from client'')),
        (enqueued (toy_app ''k'') 0 ''hello'', [\<lparr>capacity = 1, buffer = []\<rparr>]))"
  using cancellation_returns_context_error [where sch = cancelled_in_queue
      and cerr = "Foreign ''context canceled''" and h = "[]", OF toy_decode_ok [of "''k''"]]
    cancellation_returns_context_error [where sch = cancelled_waiting
      and cerr = "Foreign ''context canceled''" and h = "[]", OF toy_decode_ok [of "''k''"]]
    toy_decode_ok [of "''k''"]
  by (simp add: cancelled_in_queue_def cancelled_waiting_def)

text \<open>
  Claim C5. Input errors are rejected at the boundary with a stable reason code and no
  state change. A payload that does not decode makes \<open>TransactionsBroadcast\<close> return the
  decoding error inside \<open>BadRequestError\<close> with the \<open>App\<close> and the heap of reply
  channels as they were, so before any message is sent. A key that fails
  authentication (the API key is disabled, or the hash of the key differs from the
  stored one) makes \<open>LoadKeys\<close> return an \<open>AuthError\<close> with the \<open>App\<close>, its wallet
  included, as it was.
\<close>

theorem input_errors_change_nothing:
  "(decode env (Scheme (services a)) b = Inl err \<longrightarrow>
      TransactionsBroadcast env sch b (a, h) = (Some (Inl (BadRequestError err)), (a, h)))
   \<and> (\<not> apiKeyEnabled a \<or> (\<exists>d. SecureHash env apiKey = Inr d \<and> d \<noteq> hashedApiKey a) \<longrightarrow>
        (\<exists>msg. LoadKeys env apiKey password a = (Some (AuthError (New msg)), a)))"
proof (intro conjI impI)
  assume "decode env (Scheme (services a)) b = Inl err"
  then show "TransactionsBroadcast env sch b (a, h) = (Some (Inl (BadRequestError err)), (a, h))"
    by (simp add: TransactionsBroadcast_decode)
next
  assume "\<not> apiKeyEnabled a \<or> (\<exists>d. SecureHash env apiKey = Inr d \<and> d \<noteq> hashedApiKey a)"
  then have "\<exists>msg. checkAuth env a apiKey = Some (AuthError (New msg))"
    by (auto simp: checkAuth_def wrapToAuthError_def)
  then show "\<exists>msg. LoadKeys env apiKey password a = (Some (AuthError (New msg)), a)"
    by (auto simp: LoadKeys_rejected)
qed

theorem input_errors_change_nothing_witness:
  "decode toy (Scheme (services (toy_app ''k''))) ''4'' =
     Inl (Foreign ''unexpected end of JSON input'')
   \<and> TransactionsBroadcast toy (verdict None) ''4'' (toy_app ''k'', []) =
       (Some (Inl (BadRequestError (Foreign ''unexpected end of JSON input''))), (toy_app ''k'', []))
   \<and> SecureHash toy ''x'' = Inr ''x'' \<and> ''x'' \<noteq> hashedApiKey (toy_app ''k'')
   \<and> LoadKeys toy ''x'' ''secret'' (toy_app ''k'') =
       (Some (AuthError (New ''invalid api key'')), toy_app ''k'')"
proof -
  have d: "decode toy (Scheme (services (toy_app ''k''))) ''4'' =
      Inl (Foreign ''unexpected end of JSON input'')"
    by (simp add: decode_def toy_def)
  have s: "SecureHash toy ''x'' = Inr ''x''" "''x'' \<noteq> hashedApiKey (toy_app ''k'')"
    by (simp_all add: toy_def toy_app_def)
  have l: "LoadKeys toy ''x'' ''secret'' (toy_app ''k'') = (Some (AuthError (New msg)), toy_app ''k'')
      \<Longrightarrow> msg = ''invalid api key''" for msg
    by (simp add: LoadKeys_def checkAuth_def wrapToAuthError_def toy_def toy_app_def)
  from input_errors_change_nothing [of toy "toy_app ''k''" "''4''"
      "Foreign ''unexpected end of JSON input''" "verdict None" "[]" "''x''" "''secret''"] d s l
  show ?thesis by auto
qed




text \<open>
  Claim C10. Whatever \<open>TransactionsBroadcast\<close> does, the internal channel afterwards
  holds either what it held, or one message more, and that message carries the
  transaction that the payload decoded to under the configured \<open>Scheme\<close> and the reply
  channel made by this call: its address is the first address not in the heap before,
  and the heap after is the heap before followed by that one channel, of capacity one
  and empty. A payload that does not decode leaves the state as it was. Reply channels
  stay unshared: if the queued messages carried pairwise different allocated reply
  channels of capacity one before the call, they do so after it.
\<close>

theorem only_decoded_transactions_are_enqueued:
  assumes "TransactionsBroadcast env sch b (a, h) = (r, (a', h'))"
  shows "(InternalChannel (services a') = InternalChannel (services a)
          \<or> (\<exists>tx. decode env (Scheme (services a)) b = Inr tx
                \<and> InternalChannel (services a') =
                    InternalChannel (services a) @ [NewBroadcastTransaction (length h) tx]
                \<and> h' = h @ [\<lparr>capacity = 1, buffer = []\<rparr>]))
       \<and> (isl (decode env (Scheme (services a)) b) \<longrightarrow> (a', h') = (a, h))
       \<and> (reply_channels_ok (a, h) \<longrightarrow> reply_channels_ok (a', h'))"
proof (cases "decode env (Scheme (services a)) b")
  case (Inl err)
  with assms show ?thesis by (simp add: TransactionsBroadcast_decode)
next
  case (Inr tx)
  show ?thesis
  proof (cases "enqueue sch = Some Sent")
    case True
    with assms Inr have "a' = enqueued a (length h) tx" "h' = h @ [\<lparr>capacity = 1, buffer = []\<rparr>]"
      by (simp_all add: TransactionsBroadcast_decode)
    moreover have "InternalChannel (services (enqueued a (length h) tx)) =
        InternalChannel (services a) @ [NewBroadcastTransaction (length h) tx]"
      by (simp add: enqueued_def)
    ultimately show ?thesis using Inr reply_channels_ok_enqueued [of a h tx]
      by simp
  next
    case False
    with assms Inr have "a' = a" "h' = h @ [\<lparr>capacity = 1, buffer = []\<rparr>]"
      by (auto simp: TransactionsBroadcast_decode split: option.splits sendSelect.splits)
    with Inr reply_channels_ok_grow [of a h "\<lparr>capacity = 1, buffer = []\<rparr>"]
    show ?thesis by simp
  qed
qed

theorem only_decoded_transactions_are_enqueued_witness:
  "TransactionsBroadcast toy (verdict None) ''42Whello'' (toy_app ''k'', []) =
     (Some (Inr ''hello''), (enqueued (toy_app ''k'') 0 ''hello'', [\<lparr>capacity = 1, buffer = []\<rparr>]))
   \<and> InternalChannel (services (enqueued (toy_app ''k'') 0 ''hello'')) =
       [NewBroadcastTransaction 0 ''hello'']
   \<and> decode toy (Scheme (services (toy_app ''k''))) ''42Whello'' = Inr ''hello''
   \<and> reply_channels_ok (toy_app ''k'', [])
   \<and> reply_channels_ok (enqueued (toy_app ''k'') 0 ''hello'', [\<lparr>capacity = 1, buffer = []\<rparr>])
   \<and> isl (decode toy (Scheme (services (toy_app ''k''))) ''42Thello'')
   \<and> TransactionsBroadcast toy (verdict None) ''42Thello'' (toy_app ''k'', []) =
       (Some (Inl (BadRequestError (Foreign ''invalid chain id''))), (toy_app ''k'', []))"
proof -
  have run: "TransactionsBroadcast toy (verdict None) ''42Whello'' (toy_app ''k'', []) =
     (Some (Inr ''hello''), (enqueued (toy_app ''k'') 0 ''hello'', [\<lparr>capacity = 1, buffer = []\<rparr>]))"
    by (simp add: TransactionsBroadcast_decode toy_decode_ok verdict_def)
  have rej: "TransactionsBroadcast toy (verdict None) ''42Thello'' (toy_app ''k'', []) =
       (Some (Inl (BadRequestError (Foreign ''invalid chain id''))), (toy_app ''k'', []))"
    by (simp add: TransactionsBroadcast_decode toy_decode_mismatch)
  have ok: "reply_channels_ok (toy_app ''k'', [])"
    by (simp add: reply_channels_ok_def toy_app_def toy_services_def)
  have bad: "isl (decode toy (Scheme (services (toy_app ''k''))) ''42Thello'')"
    by (simp add: toy_decode_mismatch)
  have q: "InternalChannel (services (enqueued (toy_app ''k'') 0 ''hello'')) =
       [NewBroadcastTransaction 0 ''hello'']"
    by (simp add: enqueued_def toy_app_def toy_services_def)
  from only_decoded_transactions_are_enqueued [OF run] ok
  have "reply_channels_ok (enqueued (toy_app ''k'') 0 ''hello'', [\<lparr>capacity = 1, buffer = []\<rparr>])"
    by blast
  with run rej ok bad q toy_decode_ok [of "''k''"] only_decoded_transactions_are_enqueued [OF rej]
  show ?thesis by blast
qed

section \<open>Properties of the L2 feed\<close>

text \<open>
  Claim C2. The wire messages carry exactly the field numbers the spec fixes:
  \<open>BlockInfo\<close> has \<open>Height = 1\<close>, \<open>VRF = 2\<close>, \<open>BlockID = 3\<close>, \<open>BlockHeader = 4\<close>, and
  \<open>L2ContractDataEntries\<close> has \<open>DataEntries = 5\<close>, \<open>Height = 1\<close>, \<open>BlockID = 2\<close>; these
  are all their fields, and no number is used twice within a message.
\<close>

theorem l2_feed_field_numbers:
  "map (\<lambda>f. (field_name f, field_number f)) BlockInfo_schema =
     [(''Height'', 1), (''VRF'', 2), (''BlockID'', 3), (''BlockHeader'', 4)]
   \<and> map (\<lambda>f. (field_name f, field_number f)) L2ContractDataEntries_schema =
       [(''DataEntries'', 5), (''Height'', 1), (''BlockID'', 2)]
   \<and> distinct (map field_number BlockInfo_schema)
   \<and> distinct (map field_number L2ContractDataEntries_schema)"
  by (simp add: BlockInfo_schema_def L2ContractDataEntries_schema_def)

subsection \<open>The feed follows the canonical chain\<close>

lemma links_higher: "links p bs \<Longrightarrow> b \<in> set bs \<Longrightarrow> height p < height b"
proof (induction bs arbitrary: p)
  case Nil
  then show ?case by simp
next
  case (Cons x xs)
  then show ?case by (cases "b = x") (auto dest: Cons.IH)
qed

lemma links_filter_take:
  "links p bs \<Longrightarrow> filter (\<lambda>b. height b \<le> height p + k) bs = take k bs"
proof (induction bs arbitrary: p k)
  case Nil
  then show ?case by simp
next
  case (Cons x xs)
  show ?case
  proof (cases k)
    case 0
    have "\<forall>b \<in> set (x # xs). \<not> height b \<le> height p"
      using links_higher [OF Cons.prems] by (auto simp: not_le)
    with 0 show ?thesis by (simp del: links.simps)
  next
    case (Suc k')
    from Cons.prems have hx: "height x = Suc (height p)" and l: "links x xs" by simp_all
    from Cons.IH [OF l, of k'] Suc hx show ?thesis by simp
  qed
qed

lemma links_append:
  "links p (bs @ cs) \<longleftrightarrow> links p bs \<and> links (last (p # bs)) cs"
  by (induction bs arbitrary: p) auto

lemma links_take: "links p bs \<Longrightarrow> links p (take n bs)"
  using links_append [of p "take n bs" "drop n bs"] by simp

lemma links_last_height: "links p bs \<Longrightarrow> height (last (p # bs)) = height p + length bs"
  by (induction bs arbitrary: p) auto

lemma links_sorted: "links p bs \<Longrightarrow> sorted_wrt (<) (map height (p # bs))"
proof (induction bs arbitrary: p)
  case Nil
  then show ?case by simp
next
  case (Cons x xs)
  from Cons.prems have l: "links x xs" by simp
  from links_higher [OF Cons.prems] Cons.IH [OF l] show ?case by auto
qed

lemma deliver_rollbacks:
  "foldl deliver view (map Rollback hs) = filter (\<lambda>r. \<forall>h \<in> set hs. record_height r \<le> h) view"
  by (induction hs arbitrary: view) (auto intro: filter_cong)

lemma filter_block_records:
  "filter (\<lambda>r. P (record_height r)) (concat (map block_records bs)) =
     concat (map block_records (filter (\<lambda>b. P (height b)) bs))"
  by (induction bs) (auto simp: block_records_def)

lemma deliver_forward:
  "foldl deliver view (concat (map block_records F)) = view @ concat (map block_records F)"
  by (induction F arbitrary: view) (auto simp: block_records_def)

lemma view_of_append: "view_of (fd @ rs) = foldl deliver (view_of fd) rs"
  by (simp add: view_of_def)

text \<open>Rolling a linked chain back by \<open>d\<close> blocks: the notifications leave the subscriber
  with the records of the blocks that stay.\<close>

lemma rollbacks_to:
  assumes "links g rest" and "d \<le> length rest"
  shows "foldl deliver (concat (map block_records rest))
           (map Rollback (rev [height g + length rest - d ..< height g + length rest])) =
         concat (map block_records (take (length rest - d) rest))"
proof -
  let ?tip = "height g + length rest"
  have below: "height b \<le> ?tip" if "b \<in> set rest" for b
  proof -
    from that obtain i where i: "i < length rest" and b: "b = rest ! i"
      by (auto simp: in_set_conv_nth)
    have "links g (take (Suc i) rest)" using assms(1) by (rule links_take)
    from links_last_height [OF this] i b
    have "height b = height g + Suc i"
      by (simp add: take_Suc_conv_app_nth)
    with i show ?thesis by simp
  qed
  have "filter (\<lambda>b. \<forall>h \<in> set (rev [?tip - d ..< ?tip]). height b \<le> h) rest =
        filter (\<lambda>b. height b \<le> height g + (length rest - d)) rest"
  proof (rule filter_cong [OF refl])
    fix b assume "b \<in> set rest"
    then have "height b \<le> ?tip" by (rule below)
    with assms(2) show "(\<forall>h \<in> set (rev [?tip - d ..< ?tip]). height b \<le> h) \<longleftrightarrow>
        height b \<le> height g + (length rest - d)"
      by (cases "d = 0") auto
  qed
  also have "\<dots> = take (length rest - d) rest"
    using assms(1) by (rule links_filter_take)
  finally have eq: "filter (\<lambda>b. \<forall>h \<in> set (rev [?tip - d ..< ?tip]). height b \<le> h) rest =
      take (length rest - d) rest" .
  have "foldl deliver (concat (map block_records rest)) (map Rollback (rev [?tip - d ..< ?tip])) =
      filter (\<lambda>r. \<forall>h \<in> set (rev [?tip - d ..< ?tip]). record_height r \<le> h)
        (concat (map block_records rest))"
    by (rule deliver_rollbacks)
  also have "\<dots> = concat (map block_records
      (filter (\<lambda>b. \<forall>h \<in> set (rev [?tip - d ..< ?tip]). height b \<le> h) rest))"
    by (rule filter_block_records [where P = "\<lambda>n. \<forall>h \<in> set (rev [?tip - d ..< ?tip]). n \<le> h"])
  also note eq
  finally show ?thesis .
qed

lemma follows_start: "follows g (start g)"
  by (simp add: follows_def start_def view_of_def)

lemma follows_commit:
  assumes "follows g s"
  shows "follows g (commit d F s)"
proof (cases "d < length (chain s) \<and> d \<le> max_rollback
    \<and> links (last (take (length (chain s) - d) (chain s))) F")
  case False
  with assms show ?thesis by (auto simp: commit_def Let_def)
next
  case True
  from assms obtain rest where c: "chain s = g # rest" and l: "links g rest"
    and v: "view_of (feed s) = concat (map block_records rest)"
    by (auto simp: follows_def split: list.splits)
  from True c have d: "d \<le> length rest" by simp
  let ?rest' = "take (length rest - d) rest"
  from c d have kept: "take (length (chain s) - d) (chain s) = g # ?rest'"
    by (simp add: Suc_diff_le)
  from l have l': "links g ?rest'" by (rule links_take)
  from True kept have lf: "links (last (g # ?rest')) F" by simp
  from l' lf have l2: "links g (?rest' @ F)" by (simp add: links_append)
  from links_last_height [OF l] c
  have tip: "height (last (chain s)) = height g + length rest" by simp
  have "view_of (feed s @ publish (height (last (chain s))) d F) =
      concat (map block_records (?rest' @ F))"
    unfolding view_of_append v publish_def tip foldl_append rollbacks_to [OF l d] deliver_forward
    by simp
  with True kept l2 show ?thesis
    by (simp add: commit_def Let_def follows_def)
qed

lemma follows_run: "follows g s \<Longrightarrow> follows g (run steps s)"
proof (induction steps arbitrary: s)
  case Nil
  then show ?case by simp
next
  case (Cons step steps)
  obtain d F where "step = (d, F)" by (cases step)
  with Cons show ?case by (simp add: follows_commit)
qed

lemma run_snoc: "run (steps @ [(d, F)]) s = commit d F (run steps s)"
proof (induction steps arbitrary: s)
  case Nil
  then show ?case by simp
next
  case (Cons step steps)
  obtain d' F' where "step = (d', F')" by (cases step)
  with Cons show ?case by simp
qed

lemma links_heights:
  "links p bs \<Longrightarrow> map height bs = [Suc (height p) ..< Suc (height p) + length bs]"
proof (induction bs arbitrary: p)
  case Nil
  then show ?case by simp
next
  case (Cons x xs)
  from Cons.prems have hx: "height x = Suc (height p)" and l: "links x xs" by simp_all
  have "[Suc (height p) ..< Suc (height p) + length (x # xs)] =
      Suc (height p) # [Suc (Suc (height p)) ..< Suc (height p) + length (x # xs)]"
    by (rule upt_conv_Cons) simp
  with Cons.IH [OF l] hx show ?case by simp
qed

lemma block_records_higher:
  assumes "links p bs" and "r \<in> set (concat (map block_records bs))"
  shows "height p < record_height r"
proof -
  from assms(2) obtain b where b: "b \<in> set bs" and r: "r \<in> set (block_records b)" by auto
  from r have "record_height r = height b" by (auto simp: block_records_def)
  with links_higher [OF assms(1) b] show ?thesis by simp
qed

lemma count_block_records:
  assumes "links p bs" and "b \<in> set bs"
  shows "count_list (concat (map block_records bs)) (hd (block_records b)) = 1
     \<and> count_list (concat (map block_records bs)) (hd (tl (block_records b))) = 1"
  using assms
proof (induction bs arbitrary: p)
  case Nil
  then show ?case by simp
next
  case (Cons x xs)
  from Cons.prems(1) have hx: "height x = Suc (height p)" and l: "links x xs" by simp_all
  let ?i = "hd (block_records b)" and ?e = "hd (tl (block_records b))"
  have hi: "record_height ?i = height b" and he: "record_height ?e = height b"
    by (simp_all add: block_records_def)
  show ?case
  proof (cases "b = x")
    case True
    have "height x < record_height r" if "r \<in> set (concat (map block_records xs))" for r
      using l that by (rule block_records_higher)
    with hi he True have "?i \<notin> set (concat (map block_records xs))"
      "?e \<notin> set (concat (map block_records xs))"
      by (metis less_irrefl)+
    then have "count_list (concat (map block_records xs)) ?i = 0"
      "count_list (concat (map block_records xs)) ?e = 0"
      by simp_all
    moreover have "count_list (block_records x) ?i = 1" "count_list (block_records x) ?e = 1"
      using True by (simp_all add: block_records_def)
    ultimately show ?thesis by simp
  next
    case False
    with Cons.prems(2) have bx: "b \<in> set xs" by simp
    from links_higher [OF l bx] have ne: "height x \<noteq> height b" by simp
    have "r \<in> set (block_records x) \<Longrightarrow> record_height r = height x" for r
      by (auto simp: block_records_def)
    with hi he ne have "?i \<notin> set (block_records x)" "?e \<notin> set (block_records x)"
      by metis+
    then have "count_list (block_records x) ?i = 0" "count_list (block_records x) ?e = 0"
      by simp_all
    with Cons.IH [OF l bx] show ?thesis by simp
  qed
qed

lemma count_publish:
  assumes "links p F" and "b \<in> set F"
  shows "count_list (publish tip d F) (hd (block_records b)) = 1
     \<and> count_list (publish tip d F) (hd (tl (block_records b))) = 1"
proof -
  have "hd (block_records b) \<notin> set (map Rollback (rev [tip - d ..< tip]))"
    "hd (tl (block_records b)) \<notin> set (map Rollback (rev [tip - d ..< tip]))"
    by (auto simp: block_records_def)
  then have "count_list (map Rollback (rev [tip - d ..< tip])) (hd (block_records b)) = 0"
    "count_list (map Rollback (rev [tip - d ..< tip])) (hd (tl (block_records b))) = 0"
    by simp_all
  with count_block_records [OF assms] show ?thesis
    by (simp only: publish_def count_list_append) simp
qed

lemma Rollback_in_publish:
  "Rollback h \<in> set (publish tip d F) \<longleftrightarrow> tip - d \<le> h \<and> h < tip"
  by (auto simp: publish_def block_records_def)

lemma count_list_distinct: "distinct xs \<Longrightarrow> count_list xs x \<le> 1"
  by (induction xs) auto

lemma distinct_rollbacks:
  "count_list (publish tip d F) (Rollback h) \<le> 1"
proof -
  have "Rollback h \<notin> set (concat (map block_records F))"
    by (auto simp: block_records_def)
  then have z: "count_list (concat (map block_records F)) (Rollback h) = 0" by simp
  have "distinct (map Rollback (rev [tip - d ..< tip]))"
    by (simp add: distinct_map inj_on_def)
  then have "count_list (map Rollback (rev [tip - d ..< tip])) (Rollback h) \<le> 1"
    by (rule count_list_distinct)
  with z show ?thesis by (simp add: publish_def)
qed

lemma hd_block_records:
  "hd (block_records b) =
     Info \<lparr>BlockInfo.Height = height b, VRF = vrf b, BlockInfo.BlockID = block_id b,
           BlockHeader = header b\<rparr>"
  "hd (tl (block_records b)) =
     Entries \<lparr>DataEntries = data_entries b, L2ContractDataEntries.Height = height b,
              L2ContractDataEntries.BlockID = block_id b\<rparr>"
  by (simp_all add: block_records_def)

lemma grown_run:
  "run [(0, [blk 2 ''B2'' ''G'', blk 3 ''B3a'' ''B2'', blk 4 ''B4a'' ''B3a''])] (start G1) =
     \<lparr>chain = [G1, blk 2 ''B2'' ''G'', blk 3 ''B3a'' ''B2'', blk 4 ''B4a'' ''B3a''],
      feed = block_records (blk 2 ''B2'' ''G'') @ block_records (blk 3 ''B3a'' ''B2'')
         @ block_records (blk 4 ''B4a'' ''B3a'')\<rparr>"
  by (simp add: start_def commit_def publish_def max_rollback_def Let_def blk_def G1_def)

text \<open>
  Claim C7. The feed starts empty, on a chain that holds the genesis block only. After
  any sequence of commit steps, one more step that is accepted, rolling back \<open>d\<close>
  blocks from a tip at height \<open>tip\<close> and applying \<open>F\<close>, appends to the feed exactly
  \<open>Rollback(tip - 1)\<close> down to \<open>Rollback(tip - d)\<close> and then, for each block of \<open>F\<close> in
  order, one \<open>BlockInfo\<close> and one \<open>L2ContractDataEntries\<close> with the block's height and
  id. In what is appended, each block of \<open>F\<close> has exactly one record of either kind;
  the heights of \<open>F\<close> ascend one by one from the height above the block the chain was
  rolled back to, which is \<open>tip - d\<close>; a \<open>Rollback(h)\<close> is there exactly for the heights
  \<open>h\<close> with \<open>tip - d \<le> h < tip\<close>, those the tip regressed through, each once, so none
  when nothing is rolled back. A step that is refused changes neither the chain nor
  the feed. A subscriber that has read the whole feed holds the two records of every
  block of the canonical chain after the genesis block, in the order of the chain,
  and no others; the heights along the chain ascend one by one.
\<close>

theorem feed_of_every_commit:
  assumes s: "s = run steps (start genesis)"
    and tip: "tip = height (last (chain s))"
    and kept: "kept = take (length (chain s) - d) (chain s)"
    and recs: "recs = (\<lambda>b.
        [Info \<lparr>BlockInfo.Height = height b, VRF = vrf b, BlockInfo.BlockID = block_id b,
               BlockHeader = header b\<rparr>,
         Entries \<lparr>DataEntries = data_entries b, L2ContractDataEntries.Height = height b,
                  L2ContractDataEntries.BlockID = block_id b\<rparr>])"
    and new: "new = map Rollback (rev [tip - d ..< tip]) @ concat (map recs F)"
  shows "feed (start genesis) = [] \<and> chain (start genesis) = [genesis]
     \<and> (d < length (chain s) \<and> d \<le> max_rollback \<and> links (last kept) F \<longrightarrow>
          run (steps @ [(d, F)]) (start genesis) = \<lparr>chain = kept @ F, feed = feed s @ new\<rparr>
          \<and> (\<forall>b \<in> set F.
                count_list new
                  (Info \<lparr>BlockInfo.Height = height b, VRF = vrf b,
                         BlockInfo.BlockID = block_id b, BlockHeader = header b\<rparr>) = 1
                \<and> count_list new
                  (Entries \<lparr>DataEntries = data_entries b,
                            L2ContractDataEntries.Height = height b,
                            L2ContractDataEntries.BlockID = block_id b\<rparr>) = 1)
          \<and> height (last kept) = tip - d
          \<and> map height F = [Suc (tip - d) ..< Suc (tip - d) + length F]
          \<and> (\<forall>h. Rollback h \<in> set new \<longleftrightarrow> tip - d \<le> h \<and> h < tip)
          \<and> (\<forall>h. count_list new (Rollback h) \<le> 1))
     \<and> (\<not> (d < length (chain s) \<and> d \<le> max_rollback \<and> links (last kept) F) \<longrightarrow>
          run (steps @ [(d, F)]) (start genesis) = s)
     \<and> view_of (feed s) = concat (map recs (tl (chain s)))
     \<and> hd (chain s) = genesis
     \<and> map height (chain s) = [height genesis ..< height genesis + length (chain s)]"
proof -
  have r: "recs = block_records"
    unfolding recs by (intro ext) (simp add: block_records_def)
  have n: "new = publish tip d F"
    unfolding new r publish_def ..
  have "follows genesis s" unfolding s by (simp add: follows_run follows_start)
  then obtain rest where c: "chain s = genesis # rest" and l: "links genesis rest"
    and v: "view_of (feed s) = concat (map block_records rest)"
    by (auto simp: follows_def split: list.splits)
  from links_last_height [OF l] c tip have t: "tip = height genesis + length rest" by simp
  have step: "run (steps @ [(d, F)]) (start genesis) = commit d F s"
    unfolding s by (rule run_snoc)
  have init: "feed (start genesis) = [] \<and> chain (start genesis) = [genesis]"
    by (simp add: start_def)
  have refused: "run (steps @ [(d, F)]) (start genesis) = s"
    if "\<not> (d < length (chain s) \<and> d \<le> max_rollback \<and> links (last kept) F)"
    using that unfolding step kept by (auto simp: commit_def Let_def)
  have accepted: "run (steps @ [(d, F)]) (start genesis) = \<lparr>chain = kept @ F, feed = feed s @ new\<rparr>
          \<and> (\<forall>b \<in> set F.
                count_list new
                  (Info \<lparr>BlockInfo.Height = height b, VRF = vrf b,
                         BlockInfo.BlockID = block_id b, BlockHeader = header b\<rparr>) = 1
                \<and> count_list new
                  (Entries \<lparr>DataEntries = data_entries b,
                            L2ContractDataEntries.Height = height b,
                            L2ContractDataEntries.BlockID = block_id b\<rparr>) = 1)
          \<and> height (last kept) = tip - d
          \<and> map height F = [Suc (tip - d) ..< Suc (tip - d) + length F]
          \<and> (\<forall>h. Rollback h \<in> set new \<longleftrightarrow> tip - d \<le> h \<and> h < tip)
          \<and> (\<forall>h. count_list new (Rollback h) \<le> 1)"
    if ok: "d < length (chain s) \<and> d \<le> max_rollback \<and> links (last kept) F"
  proof -
    from ok c have d: "d \<le> length rest" by simp
    from c d have k: "kept = genesis # take (length rest - d) rest"
      unfolding kept by (simp add: Suc_diff_le)
    have "links genesis (take (length rest - d) rest)" using l by (rule links_take)
    from links_last_height [OF this] k d t have base: "height (last kept) = tip - d"
      by simp
    from ok have lf: "links (last kept) F" by simp
    from ok have "commit d F s = \<lparr>chain = kept @ F, feed = feed s @ new\<rparr>"
      unfolding kept n tip by (simp add: commit_def Let_def)
    then have 1: "run (steps @ [(d, F)]) (start genesis) =
        \<lparr>chain = kept @ F, feed = feed s @ new\<rparr>"
      unfolding step .
    have 2: "\<forall>b \<in> set F.
                count_list new
                  (Info \<lparr>BlockInfo.Height = height b, VRF = vrf b,
                         BlockInfo.BlockID = block_id b, BlockHeader = header b\<rparr>) = 1
                \<and> count_list new
                  (Entries \<lparr>DataEntries = data_entries b,
                            L2ContractDataEntries.Height = height b,
                            L2ContractDataEntries.BlockID = block_id b\<rparr>) = 1"
      using count_publish [OF lf, of _ tip d] unfolding n hd_block_records by blast
    from links_heights [OF lf] base
    have 3: "map height F = [Suc (tip - d) ..< Suc (tip - d) + length F]" by simp
    have 4: "\<forall>h. Rollback h \<in> set new \<longleftrightarrow> tip - d \<le> h \<and> h < tip"
      unfolding n by (simp add: Rollback_in_publish)
    have 5: "\<forall>h. count_list new (Rollback h) \<le> 1"
      unfolding n using distinct_rollbacks [of tip d F] by blast
    from 1 2 base 3 4 5 show ?thesis by blast
  qed
  have view: "view_of (feed s) = concat (map recs (tl (chain s)))"
    unfolding r using c v by simp
  have first: "hd (chain s) = genesis" using c by simp
  have "[height genesis ..< height genesis + length (chain s)] =
      height genesis # [Suc (height genesis) ..< height genesis + length (chain s)]"
    unfolding c by (rule upt_conv_Cons) simp
  with links_heights [OF l] c
  have heights: "map height (chain s) = [height genesis ..< height genesis + length (chain s)]"
    by simp
  from init accepted refused view first heights show ?thesis by blast
qed

theorem feed_of_every_commit_witness:
  "run ([(0, [blk 2 ''B2'' ''G'', blk 3 ''B3a'' ''B2'', blk 4 ''B4a'' ''B3a''])]
        @ [(2, [blk 3 ''B3b'' ''B2'', blk 4 ''B4b'' ''B3b'', blk 5 ''B5b'' ''B4b''])]) (start G1) =
     \<lparr>chain = [G1, blk 2 ''B2'' ''G'', blk 3 ''B3b'' ''B2'', blk 4 ''B4b'' ''B3b'',
               blk 5 ''B5b'' ''B4b''],
      feed =
        [Info \<lparr>BlockInfo.Height = 2, VRF = ''vB2'', BlockInfo.BlockID = ''B2'', BlockHeader = ()\<rparr>,
         Entries \<lparr>DataEntries = [''kB2''], L2ContractDataEntries.Height = 2,
                  L2ContractDataEntries.BlockID = ''B2''\<rparr>,
         Info \<lparr>BlockInfo.Height = 3, VRF = ''vB3a'', BlockInfo.BlockID = ''B3a'', BlockHeader = ()\<rparr>,
         Entries \<lparr>DataEntries = [''kB3a''], L2ContractDataEntries.Height = 3,
                  L2ContractDataEntries.BlockID = ''B3a''\<rparr>,
         Info \<lparr>BlockInfo.Height = 4, VRF = ''vB4a'', BlockInfo.BlockID = ''B4a'', BlockHeader = ()\<rparr>,
         Entries \<lparr>DataEntries = [''kB4a''], L2ContractDataEntries.Height = 4,
                  L2ContractDataEntries.BlockID = ''B4a''\<rparr>,
         Rollback 3, Rollback 2,
         Info \<lparr>BlockInfo.Height = 3, VRF = ''vB3b'', BlockInfo.BlockID = ''B3b'', BlockHeader = ()\<rparr>,
         Entries \<lparr>DataEntries = [''kB3b''], L2ContractDataEntries.Height = 3,
                  L2ContractDataEntries.BlockID = ''B3b''\<rparr>,
         Info \<lparr>BlockInfo.Height = 4, VRF = ''vB4b'', BlockInfo.BlockID = ''B4b'', BlockHeader = ()\<rparr>,
         Entries \<lparr>DataEntries = [''kB4b''], L2ContractDataEntries.Height = 4,
                  L2ContractDataEntries.BlockID = ''B4b''\<rparr>,
         Info \<lparr>BlockInfo.Height = 5, VRF = ''vB5b'', BlockInfo.BlockID = ''B5b'', BlockHeader = ()\<rparr>,
         Entries \<lparr>DataEntries = [''kB5b''], L2ContractDataEntries.Height = 5,
                  L2ContractDataEntries.BlockID = ''B5b''\<rparr>]\<rparr>
   \<and> height (last (chain (run [(0, [blk 2 ''B2'' ''G'', blk 3 ''B3a'' ''B2'',
         blk 4 ''B4a'' ''B3a''])] (start G1)))) = 4
   \<and> links (blk 2 ''B2'' ''G'') [blk 3 ''B3b'' ''B2'', blk 4 ''B4b'' ''B3b'', blk 5 ''B5b'' ''B4b'']
   \<and> 2 \<le> max_rollback"
proof -
  let ?grow = "[(0, [blk 2 ''B2'' ''G'', blk 3 ''B3a'' ''B2'', blk 4 ''B4a'' ''B3a''])]"
  let ?F = "[blk 3 ''B3b'' ''B2'', blk 4 ''B4b'' ''B3b'', blk 5 ''B5b'' ''B4b'']"
  have c: "chain (run ?grow (start G1)) =
      [G1, blk 2 ''B2'' ''G'', blk 3 ''B3a'' ''B2'', blk 4 ''B4a'' ''B3a'']"
    and f: "feed (run ?grow (start G1)) =
      block_records (blk 2 ''B2'' ''G'') @ block_records (blk 3 ''B3a'' ''B2'')
         @ block_records (blk 4 ''B4a'' ''B3a'')"
    by (simp_all only: grown_run applier.simps)
  have tip: "height (last (chain (run ?grow (start G1)))) = 4"
    unfolding c by (simp add: blk_def)
  have kept: "take (length (chain (run ?grow (start G1))) - 2) (chain (run ?grow (start G1))) =
      [G1, blk 2 ''B2'' ''G'']"
    unfolding c by simp
  have lk: "links (blk 2 ''B2'' ''G'') ?F"
    by (simp add: blk_def)
  have ok: "2 < length (chain (run ?grow (start G1))) \<and> 2 \<le> max_rollback
      \<and> links (last [G1, blk 2 ''B2'' ''G'']) ?F"
    unfolding c using lk by (simp add: max_rollback_def)
  have u: "rev [4 - 2 ..< 4] = [3, 2 :: nat]"
    by (simp add: upt_rec)
  from feed_of_every_commit [OF refl refl refl refl refl,
      where d = 2 and steps = ?grow and genesis = G1 and F = ?F]
  have "run (?grow @ [(2, ?F)]) (start G1) =
      \<lparr>chain = [G1, blk 2 ''B2'' ''G''] @ ?F,
       feed = feed (run ?grow (start G1)) @ map Rollback (rev [4 - 2 ..< 4])
         @ concat (map block_records ?F)\<rparr>"
    unfolding tip kept using ok by (simp add: block_records_def)
  then show ?thesis
    unfolding f u using tip lk by (simp add: block_records_def blk_def max_rollback_def)
qed

end
